theory Spec2Isabelle
  imports Main "HOL-Library.AList"
begin

section \<open>The record store\<close>

text \<open>
  The store is one JSON file holding an array of objects. A field of a record holds a
  string (\<open>title\<close>, \<open>url\<close>, \<open>download_path\<close>, \<open>project\<close>), a boolean or the string
  \<open>"timeout"\<close> (\<open>done\<close>), or \<open>null\<close>. On these values Python's \<open>==\<close> is structural
  equality. A record is a Python dict: an association list in insertion order, read with
  \<open>map_of\<close> (\<open>entry.get(k)\<close>) and written with \<open>AList.update\<close> (\<open>entry[k] = v\<close>: in place
  when the key exists, appended otherwise).
\<close>

datatype jval = JNull | JBool bool | JStr string

type_synonym entry = "(string \<times> jval) list"

datatype error = KeyError | IndexError | TypeError | SystemExit | LibraryError | WebDriverException

text \<open>
  The state of \<open>DATABASE_FILE\<close>: it does not exist; it exists and opening or
  \<open>json.load\<close> raises; it exists and \<open>json.load\<close> returns the given array. The contents
  are identified with the value \<open>json.load\<close> reads from them, so \<open>json.dump\<close> followed by
  \<open>json.load\<close> is taken to give the value back (the library's behaviour on such values),
  and writing the file is taken to succeed.
\<close>

datatype disk = Missing | Corrupt | Holds "entry list"

definition load_database :: "disk \<Rightarrow> entry list" where
  "load_database d = (case d of Missing \<Rightarrow> [] | Corrupt \<Rightarrow> [] | Holds db \<Rightarrow> db)"

definition save_database :: "entry list \<Rightarrow> disk \<Rightarrow> disk" where
  "save_database data d = Holds data"

text \<open>
  The body of the \<open>if entry['url'] == url\<close> branch of \<open>update_database_entry\<close>:
  \<open>entry['done'] = done_status\<close>, then \<open>entry['download_path'] = download_path\<close> when
  \<open>download_path\<close> is truthy (a non-empty string).
\<close>

definition mark_entry :: "string \<Rightarrow> jval \<Rightarrow> entry \<Rightarrow> entry" where
  "mark_entry download_path done_status entry =
     (let entry1 = AList.update ''done'' done_status entry
      in if download_path \<noteq> [] then AList.update ''download_path'' (JStr download_path) entry1
         else entry1)"

text \<open>
  The \<open>for entry in database\<close> loop of \<open>update_database_entry\<close>, with its \<open>break\<close>.
  \<open>entry['url']\<close> raises \<open>KeyError\<close> on a record without that key.
\<close>

fun update_loop :: "jval \<Rightarrow> string \<Rightarrow> jval \<Rightarrow> entry list \<Rightarrow> error + entry list" where
  "update_loop url download_path done_status [] = Inr []"
| "update_loop url download_path done_status (entry # rest) =
     (case map_of entry ''url'' of
        None \<Rightarrow> Inl KeyError
      | Some u \<Rightarrow>
          if u = url then Inr (mark_entry download_path done_status entry # rest)
          else (case update_loop url download_path done_status rest of
                  Inl e \<Rightarrow> Inl e
                | Inr rest' \<Rightarrow> Inr (entry # rest')))"

text \<open>
  \<open>update_database_entry(url, download_path, done_status)\<close>. The result is the exception
  raised, if any, and the file afterwards: an exception in the loop leaves before
  \<open>save_database\<close>, so nothing is written and the file is as it was.
\<close>

definition update_database_entry :: "jval \<Rightarrow> string \<Rightarrow> jval \<Rightarrow> disk \<Rightarrow> error option \<times> disk" where
  "update_database_entry url download_path done_status d =
     (case update_loop url download_path done_status (load_database d) of
        Inl e \<Rightarrow> (Some e, d)
      | Inr database \<Rightarrow> (None, save_database database d))"

text \<open>Position \<open>j\<close> holds the first record of \<open>db\<close> whose \<open>url\<close> field equals \<open>url\<close>.\<close>

definition first_match :: "jval \<Rightarrow> entry list \<Rightarrow> nat \<Rightarrow> bool" where
  "first_match url db j \<longleftrightarrow>
     j < length db \<and> map_of (db ! j) ''url'' = Some url \<and>
     (\<forall>k<j. map_of (db ! k) ''url'' \<noteq> Some url)"

text \<open>Every record of \<open>db\<close> has a \<open>url\<close> field.\<close>

definition all_have_url :: "entry list \<Rightarrow> bool" where
  "all_have_url db \<longleftrightarrow> (\<forall>e \<in> set db. map_of e ''url'' \<noteq> None)"

section \<open>The discovery pipeline\<close>

text \<open>
  \<open>urllib.parse\<close> is the Python library's, so its two functions are parameters of the
  model. \<open>urlparse\<close> is applied to whatever the \<open>url\<close> field holds and may raise;
  of its result the code reads \<open>hostname\<close>, \<open>path\<close> and \<open>query\<close>. \<open>parse_qs\<close> returns a
  dict from parameter names to the list of their values.
\<close>

record parse_result =
  hostname :: "string option"
  path :: string
  query :: string

record urllib =
  urlparse :: "jval \<Rightarrow> error + parse_result"
  parse_qs :: "string \<Rightarrow> (string \<times> string list) list"

text \<open>
  \<open>extract_video_id(youtube_url)\<close>. \<open>parse_qs(...).get('v', [None])[0]\<close> is \<open>None\<close> when
  there is no \<open>v\<close> key, the first value of \<open>v\<close> otherwise, and raises \<open>IndexError\<close>
  on an empty list of values.
\<close>

definition extract_video_id :: "urllib \<Rightarrow> jval \<Rightarrow> error + string option" where
  "extract_video_id lib youtube_url =
     (case urlparse lib youtube_url of
        Inl e \<Rightarrow> Inl e
      | Inr parsed_url \<Rightarrow>
          if hostname parsed_url = Some ''www.youtube.com'' \<or>
             hostname parsed_url = Some ''youtube.com''
          then if path parsed_url = ''/watch''
               then (case map_of (parse_qs lib (query parsed_url)) ''v'' of
                       None \<Rightarrow> Inr None
                     | Some [] \<Rightarrow> Inl IndexError
                     | Some (v # _) \<Rightarrow> Inr (Some v))
               else Inr None
          else Inr None)"

text \<open>The \<open>for entry in database\<close> loop of \<open>check_duplicate\<close>.\<close>

fun check_loop :: "urllib \<Rightarrow> string option \<Rightarrow> entry list \<Rightarrow> error + entry option" where
  "check_loop lib new_video_id [] = Inr None"
| "check_loop lib new_video_id (entry # rest) =
     (case map_of entry ''url'' of
        None \<Rightarrow> Inl KeyError
      | Some u \<Rightarrow>
          (case extract_video_id lib u of
             Inl e \<Rightarrow> Inl e
           | Inr existing_video_id \<Rightarrow>
               if existing_video_id = new_video_id then Inr (Some entry)
               else check_loop lib new_video_id rest))"

text \<open>
  \<open>check_duplicate(new_url, database)\<close>. \<open>not new_video_id\<close> holds for \<open>None\<close> and for
  the empty string.
\<close>

definition check_duplicate :: "urllib \<Rightarrow> string \<Rightarrow> entry list \<Rightarrow> error + entry option" where
  "check_duplicate lib new_url database =
     (case extract_video_id lib (JStr new_url) of
        Inl e \<Rightarrow> Inl e
      | Inr new_video_id \<Rightarrow>
          if new_video_id = None \<or> new_video_id = Some [] then Inr None
          else check_loop lib new_video_id database)"

text \<open>The \<open>result_obj\<close> that \<open>main\<close> builds for a new result.\<close>

definition result_obj :: "string \<Rightarrow> string \<Rightarrow> entry" where
  "result_obj q url =
     [(''title'', JStr q), (''url'', JStr url), (''done'', JBool False),
      (''download_path'', JStr ''''), (''project'', JStr '''')]"

text \<open>
  The local variables of \<open>main\<close> that the loop changes. \<open>database\<close> is not among them: the
  loop only reads it, and new records go to \<open>new_entries\<close>.
\<close>

record discovery =
  new_entries :: "entry list"
  duplicates_found :: "(string \<times> entry) list"
  queries_processed :: nat

text \<open>
  One iteration of the loop of \<open>main\<close>, for the query \<open>q\<close>, given what
  \<open>search_query_and_get_first_url\<close> did for it: raised, or returned \<open>None\<close> or a URL. An
  exception leaves the loop (\<open>try ... finally\<close> has no handler). \<open>if url\<close> and
  \<open>if duplicate\<close> are Python truth tests: a non-empty string, a non-empty dict. The
  report of a duplicate prints \<open>duplicate['title']\<close>, which raises \<open>KeyError\<close> on a
  record without a title.
\<close>

definition main_step ::
  "urllib \<Rightarrow> entry list \<Rightarrow> string \<times> (error + string option) \<Rightarrow> discovery \<Rightarrow> error + discovery" where
  "main_step lib database qr st =
     (case snd qr of
        Inl e \<Rightarrow> Inl e
      | Inr None \<Rightarrow> Inr (st\<lparr>queries_processed := queries_processed st + 1\<rparr>)
      | Inr (Some url) \<Rightarrow>
          if url = [] then Inr (st\<lparr>queries_processed := queries_processed st + 1\<rparr>)
          else (case check_duplicate lib url database of
                  Inl e \<Rightarrow> Inl e
                | Inr duplicate \<Rightarrow>
                    if duplicate \<noteq> None \<and> duplicate \<noteq> Some []
                    then (if map_of (the duplicate) ''title'' = None then Inl KeyError
                          else Inr (st\<lparr>duplicates_found :=
                                         duplicates_found st @ [(fst qr, the duplicate)],
                                       queries_processed := queries_processed st + 1\<rparr>))
                    else Inr (st\<lparr>new_entries := new_entries st @ [result_obj (fst qr) url],
                                 queries_processed := queries_processed st + 1\<rparr>)))"

fun main_loop ::
  "urllib \<Rightarrow> entry list \<Rightarrow> (string \<times> (error + string option)) list \<Rightarrow> discovery \<Rightarrow>
   error + discovery" where
  "main_loop lib database [] st = Inr st"
| "main_loop lib database (qr # rest) st =
     (case main_step lib database qr st of
        Inl e \<Rightarrow> Inl e
      | Inr st' \<Rightarrow> main_loop lib database rest st')"

text \<open>
  \<open>main(in_txt)\<close>, on the queries read from the input file, each with the outcome of its
  search. No query: \<open>sys.exit(2)\<close>. The store is written only after the loop, and only
  when \<open>new_entries\<close> is not empty; an exception leaves the file as it was, nothing
  written. The result of a run that completes is the file afterwards, the variables of
  the loop, and the successive contents written to the file: \<open>save_database\<close> is called
  in one place, so there is one write or none.
\<close>

definition main ::
  "urllib \<Rightarrow> (string \<times> (error + string option)) list \<Rightarrow> disk \<Rightarrow>
   error + disk \<times> discovery \<times> disk list" where
  "main lib queries d =
     (if queries = [] then Inl SystemExit
      else let database = load_database d in
        (case main_loop lib database queries
                \<lparr>new_entries = [], duplicates_found = [], queries_processed = 0\<rparr> of
           Inl e \<Rightarrow> Inl e
         | Inr st \<Rightarrow>
             if new_entries st \<noteq> []
             then (let d' = save_database (database @ new_entries st) d
                   in Inr (d', st, [d']))
             else Inr (d, st, [])))"

text \<open>
  The conditions of the extraction rule on a parsed URL: the hostname is \<open>youtube.com\<close> or
  \<open>www.youtube.com\<close>, the path is exactly \<open>/watch\<close>, and \<open>parse_qs\<close> finds a \<open>v\<close>
  parameter in the query.
\<close>

definition is_watch_url :: "urllib \<Rightarrow> parse_result \<Rightarrow> bool" where
  "is_watch_url lib p \<longleftrightarrow>
     (hostname p = Some ''youtube.com'' \<or> hostname p = Some ''www.youtube.com'') \<and>
     path p = ''/watch'' \<and> map_of (parse_qs lib (query p)) ''v'' \<noteq> None"

text \<open>The queries for which the search returned a URL, each with its URL, in query order.\<close>

fun found_urls :: "(string \<times> (error + string option)) list \<Rightarrow> (string \<times> string) list" where
  "found_urls [] = []"
| "found_urls ((q, Inr (Some url)) # rest) =
     (if url = [] then found_urls rest else (q, url) # found_urls rest)"
| "found_urls ((q, Inr None) # rest) = found_urls rest"
| "found_urls ((q, Inl e) # rest) = found_urls rest"

text \<open>\<open>check_duplicate\<close> reports the URL as a duplicate of a record of the database.\<close>

definition is_duplicate :: "urllib \<Rightarrow> entry list \<Rightarrow> string \<Rightarrow> bool" where
  "is_duplicate lib database url \<longleftrightarrow>
     (case check_duplicate lib url database of
        Inr (Some entry) \<Rightarrow> entry \<noteq> []
      | Inr None \<Rightarrow> False
      | Inl e \<Rightarrow> False)"

text \<open>
  The records a batch adds when every result URL is checked against the store as it stands
  when its query is reached: the records loaded and the records added for the earlier
  queries of the batch. A query is a duplicate when \<open>check_duplicate\<close> reports its URL
  against that store.
\<close>

fun non_duplicates :: "urllib \<Rightarrow> entry list \<Rightarrow> (string \<times> string) list \<Rightarrow> entry list" where
  "non_duplicates lib store [] = []"
| "non_duplicates lib store ((q, url) # rest) =
     (if is_duplicate lib store url then non_duplicates lib store rest
      else result_obj q url # non_duplicates lib (store @ [result_obj q url]) rest)"

text \<open>
  No result URL of the batch is a duplicate of a record added for an earlier query of the
  same batch; \<open>added\<close> holds the records added so far.
\<close>

fun no_batch_duplicate ::
  "urllib \<Rightarrow> entry list \<Rightarrow> entry list \<Rightarrow> (string \<times> string) list \<Rightarrow> bool" where
  "no_batch_duplicate lib database added [] = True"
| "no_batch_duplicate lib database added ((q, url) # rest) =
     (\<not> is_duplicate lib added url \<and>
      no_batch_duplicate lib database
        (if is_duplicate lib database url then added else added @ [result_obj q url]) rest)"

section \<open>The conversion pipeline\<close>

text \<open>
  What the browser did for one record, up to the point where \<open>process_file\<close> updates the
  status: a call raised; the input with id \<open>v\<close> was not found; the Convert button was not
  found; the Download button did not appear within the timeout; it appeared and was clicked.
\<close>

datatype outcome = Raises | InputNotFound | ConvertNotFound | DownloadTimeout | Downloaded

text \<open>
  The variables of \<open>process_file\<close> that its loop changes and the file, with two traces
  of the run: the positions of the records for which the \<open>try\<close> block was entered, and
  the successive contents written to the file; and the exception that left the loop, if
  one did.
\<close>

record run_state =
  data :: "entry list"
  disk :: disk
  processed_count :: nat
  successful_downloads :: nat
  visited :: "nat list"
  written :: "disk list"
  aborted :: "error option"

text \<open>The file receives new contents.\<close>

definition write_file :: "disk \<Rightarrow> run_state \<Rightarrow> run_state" where
  "write_file d st = st\<lparr>disk := d, written := written st @ [d]\<rparr>"

text \<open>The value is a Python \<open>str\<close>.\<close>

definition is_str :: "jval \<Rightarrow> bool" where
  "is_str v \<longleftrightarrow> (case v of JStr s \<Rightarrow> True | JBool b \<Rightarrow> False | JNull \<Rightarrow> False)"

text \<open>\<open>item[k] = v\<close> for the record \<open>item\<close> at position \<open>i\<close> of \<open>data\<close>.\<close>

definition set_item :: "nat \<Rightarrow> string \<Rightarrow> jval \<Rightarrow> entry list \<Rightarrow> entry list" where
  "set_item i k v xs = xs[i := AList.update k v (xs ! i)]"

text \<open>
  The \<open>except Exception\<close> handler: the record is marked \<open>"timeout"\<close> in memory, the counter
  goes up, and \<open>continue\<close> goes to the next record, past the \<open>save_database(data)\<close> that
  follows the \<open>try\<close> statement.
\<close>

definition on_exception :: "nat \<Rightarrow> run_state \<Rightarrow> run_state" where
  "on_exception i st =
     st\<lparr>data := set_item i ''done'' (JStr ''timeout'') (data st),
        processed_count := processed_count st + 1\<rparr>"

text \<open>
  The \<open>save_database(data)\<close> after the \<open>try\<close> statement, and the one after the loop
  (their own handlers only log).
\<close>

definition save_after_entry :: "run_state \<Rightarrow> run_state" where
  "save_after_entry st = write_file (save_database (data st) (disk st)) st"

text \<open>
  The body of the loop of \<open>process_file\<close> for position \<open>i\<close> (\<open>idx - 1\<close>); nothing is done
  once an exception has left the loop. With \<open>tqdm\<close> installed (\<open>TQDM_AVAILABLE\<close>), the
  progress bar is given \<open>title[:30]\<close> before the \<open>try\<close> statement, which raises
  \<open>TypeError\<close> when the title is not a string.
\<close>

definition process_entry ::
  "bool \<Rightarrow> (nat \<Rightarrow> outcome) \<Rightarrow> string \<Rightarrow> nat \<Rightarrow> run_state \<Rightarrow> run_state" where
  "process_entry tqdm browser download_dir i st =
     (let item = data st ! i;
          title = (case map_of item ''title'' of None \<Rightarrow> JStr '''' | Some t \<Rightarrow> t);
          url = (case map_of item ''url'' of None \<Rightarrow> JStr '''' | Some u \<Rightarrow> u);
          done_status = (case map_of item ''done'' of None \<Rightarrow> JBool False | Some v \<Rightarrow> v)
      in if aborted st \<noteq> None then st
         else if done_status = JBool True then st
         else if tqdm \<and> \<not> is_str title then st\<lparr>aborted := Some TypeError\<rparr>
         else
           (let st0 = st\<lparr>visited := visited st @ [i]\<rparr> in
            case browser i of
              Raises \<Rightarrow> on_exception i st0
            | InputNotFound \<Rightarrow> st0
            | ConvertNotFound \<Rightarrow> st0
            | DownloadTimeout \<Rightarrow>
                (let st1 = st0\<lparr>data := set_item i ''done'' (JStr ''timeout'') (data st0)\<rparr> in
                 case update_database_entry url download_dir (JStr ''timeout'') (disk st1) of
                   (Some e, d) \<Rightarrow> on_exception i st1
                 | (None, d) \<Rightarrow>
                     save_after_entry
                       ((write_file d st1)\<lparr>processed_count := processed_count st1 + 1\<rparr>))
            | Downloaded \<Rightarrow>
                (let st1 = st0\<lparr>data := set_item i ''done'' (JBool True) (data st0)\<rparr> in
                 case update_database_entry url download_dir (JBool True) (disk st1) of
                   (Some e, d) \<Rightarrow> on_exception i st1
                 | (None, d) \<Rightarrow>
                     save_after_entry
                       ((write_file d st1)
                          \<lparr>data := set_item i ''download_path'' (JStr download_dir) (data st1),
                           successful_downloads := successful_downloads st1 + 1,
                           processed_count := processed_count st1 + 1\<rparr>))))"

text \<open>\<open>item.get("done", False) is not True\<close>.\<close>

definition not_done :: "entry \<Rightarrow> bool" where
  "not_done item \<longleftrightarrow>
     (case map_of item ''done'' of None \<Rightarrow> JBool False | Some v \<Rightarrow> v) \<noteq> JBool True"

text \<open>
  Every record still to process has a title that the progress bar can show: a string, or
  none (\<open>item.get("title", "")\<close>).
\<close>

definition titles_shown :: "entry list \<Rightarrow> bool" where
  "titles_shown db \<longleftrightarrow>
     (\<forall>item \<in> set db. not_done item \<longrightarrow>
        is_str (case map_of item ''title'' of None \<Rightarrow> JStr '''' | Some t \<Rightarrow> t))"

text \<open>The record does not stop the progress bar.\<close>

definition title_shown :: "bool \<Rightarrow> entry \<Rightarrow> bool" where
  "title_shown tqdm item \<longleftrightarrow>
     (tqdm \<and> not_done item \<longrightarrow>
        is_str (case map_of item ''title'' of None \<Rightarrow> JStr '''' | Some t \<Rightarrow> t))"

text \<open>
  \<open>process_file(driver, base_url, download_dir)\<close>: the store is loaded once, the function
  returns at once when no record is left to process, and otherwise goes through \<open>data\<close> in
  order and saves once more after the loop, unless an exception left it.
\<close>

definition process_file :: "bool \<Rightarrow> (nat \<Rightarrow> outcome) \<Rightarrow> string \<Rightarrow> disk \<Rightarrow> run_state" where
  "process_file tqdm browser download_dir d =
     (let data0 = load_database d;
          entries_to_process = filter not_done data0;
          total_entries = length entries_to_process;
          st = \<lparr>data = data0, disk = d, processed_count = 0, successful_downloads = 0,
                visited = [], written = [], aborted = None\<rparr>
      in if total_entries = 0 then st
         else (let st' = fold (process_entry tqdm browser download_dir) [0..<length data0] st
               in if aborted st' \<noteq> None then st' else save_after_entry st'))"

section \<open>Examples\<close>

text \<open>
  What \<open>urllib.parse\<close> gives on the URLs of the examples; the table has no other entry.
\<close>

definition url_abc :: string where
  "url_abc = ''https://www.youtube.com/watch?v=abc123''"

definition url_abc_t :: string where
  "url_abc_t = ''https://www.youtube.com/watch?v=abc123&t=42''"

definition url_xyz :: string where
  "url_xyz = ''https://www.youtube.com/watch?v=xyz789''"

definition url_short :: string where
  "url_short = ''https://youtu.be/abc123''"

definition example_lib :: urllib where
  "example_lib =
     \<lparr>urlparse = (\<lambda>u.
         if u = JStr url_abc
         then Inr \<lparr>hostname = Some ''www.youtube.com'', path = ''/watch'', query = ''v=abc123''\<rparr>
         else if u = JStr url_abc_t
         then Inr \<lparr>hostname = Some ''www.youtube.com'', path = ''/watch'',
                   query = ''v=abc123&t=42''\<rparr>
         else if u = JStr url_xyz
         then Inr \<lparr>hostname = Some ''www.youtube.com'', path = ''/watch'', query = ''v=xyz789''\<rparr>
         else if u = JStr url_short
         then Inr \<lparr>hostname = Some ''youtu.be'', path = ''/abc123'', query = ''''\<rparr>
         else Inl LibraryError),
      parse_qs = (\<lambda>q.
         if q = ''v=abc123'' then [(''v'', [''abc123''])]
         else if q = ''v=abc123&t=42'' then [(''v'', [''abc123'']), (''t'', [''42''])]
         else if q = ''v=xyz789'' then [(''v'', [''xyz789''])]
         else [])\<rparr>"

definition done_record :: "string \<Rightarrow> string \<Rightarrow> string \<Rightarrow> entry" where
  "done_record q url dir =
     [(''title'', JStr q), (''url'', JStr url), (''done'', JBool True),
      (''download_path'', JStr dir), (''project'', JStr '''')]"

section \<open>Properties of the record store\<close>

lemma map_of_mark_entry_other:
  "k \<noteq> ''done'' \<Longrightarrow> k \<noteq> ''download_path'' \<Longrightarrow>
   map_of (mark_entry dp st e) k = map_of e k"
  by (simp add: mark_entry_def Let_def AList.update_conv')

lemma map_of_mark_entry_done: "map_of (mark_entry dp st e) ''done'' = Some st"
  by (simp add: mark_entry_def Let_def AList.update_conv')

lemma map_of_mark_entry_path:
  "map_of (mark_entry dp st e) ''download_path'' =
     (if dp \<noteq> [] then Some (JStr dp) else map_of e ''download_path'')"
  by (simp add: mark_entry_def Let_def AList.update_conv')

lemma update_loop_length:
  "update_loop url dp st db = Inr db' \<Longrightarrow> length db' = length db"
  by (induction db arbitrary: db') (auto split: option.splits if_splits sum.splits)

lemma update_loop_no_match:
  "update_loop url dp st db = Inr db' \<Longrightarrow> \<forall>j<length db. \<not> first_match url db j \<Longrightarrow> db' = db"
proof (induction db arbitrary: db')
  case Nil
  then show ?case by simp
next
  case (Cons e es)
  from Cons.prems(2) have ne: "map_of e ''url'' \<noteq> Some url"
    by (auto simp: first_match_def)
  have rest: "\<forall>j<length es. \<not> first_match url es j"
  proof (intro allI impI notI)
    fix j assume j: "j < length es" and fm: "first_match url es j"
    have "first_match url (e # es) (Suc j)"
      unfolding first_match_def
    proof (intro conjI allI impI)
      show "Suc j < length (e # es)" using j by simp
      show "map_of ((e # es) ! Suc j) ''url'' = Some url"
        using fm by (simp add: first_match_def)
      fix k assume "k < Suc j"
      then show "map_of ((e # es) ! k) ''url'' \<noteq> Some url"
        using fm ne by (cases k) (auto simp: first_match_def)
    qed
    with Cons.prems(2) j show False by auto
  qed
  from Cons.prems(1) ne obtain es' where
    "update_loop url dp st es = Inr es'" and "db' = e # es'"
    by (auto split: option.splits if_splits sum.splits)
  with Cons.IH rest show ?case by simp
qed

lemma update_loop_nth:
  "update_loop url dp st db = Inr db' \<Longrightarrow> j < length db \<Longrightarrow>
   db' ! j = (if first_match url db j then mark_entry dp st (db ! j) else db ! j)"
proof (induction db arbitrary: db' j)
  case Nil
  then show ?case by simp
next
  case (Cons e es)
  show ?case
  proof (cases "map_of e ''url'' = Some url")
    case True
    with Cons.prems(1) have db': "db' = mark_entry dp st e # es" by simp
    have "first_match url (e # es) j \<longleftrightarrow> j = 0"
      using True by (cases j) (auto simp: first_match_def)
    with db' show ?thesis by (cases j) auto
  next
    case False
    with Cons.prems(1) obtain es' where
      es': "update_loop url dp st es = Inr es'" and db': "db' = e # es'"
      by (auto split: option.splits if_splits sum.splits)
    show ?thesis
    proof (cases j)
      case 0
      with False db' show ?thesis by (simp add: first_match_def)
    next
      case (Suc i)
      with Cons.prems(2) have i: "i < length es" by simp
      have "first_match url (e # es) (Suc i) \<longleftrightarrow> first_match url es i"
        unfolding first_match_def using False
        by (auto simp: less_Suc_eq_0_disj)
      with Cons.IH[OF es' i] Suc db' show ?thesis by simp
    qed
  qed
qed

lemma update_loop_returns:
  "all_have_url db \<Longrightarrow> \<exists>db'. update_loop url dp st db = Inr db'"
  by (induction db) (auto simp: all_have_url_def split: option.splits)

lemma update_database_entry_cases:
  "update_database_entry url dp st d = (err, d') \<Longrightarrow>
   (err \<noteq> None \<and> d' = d) \<or>
   (err = None \<and> (\<exists>db'. d' = Holds db' \<and> update_loop url dp st (load_database d) = Inr db'))"
  by (auto simp: update_database_entry_def save_database_def split: sum.splits)

text \<open>
  C8. \<open>load_database\<close> never raises: a missing file and a file that cannot be read or
  parsed both give the empty list, and a file that parses gives the parsed list of records.
\<close>

theorem load_database_failure_mode:
  "load_database Missing = [] \<and> load_database Corrupt = [] \<and> load_database (Holds db) = db"
  by (simp add: load_database_def)

text \<open>
  C9. Round trip: loading a persisted store and saving it at once, with no mutation in
  between, leaves the file holding the same sequence of records, in the same order and with
  every field of every record; loading again gives the same value, whatever the file was.
\<close>

theorem store_round_trip:
  "save_database (load_database (Holds db)) (Holds db) = Holds db \<and>
   load_database (save_database (load_database d) d) = load_database d"
  by (simp add: load_database_def save_database_def)

text \<open>
  C10. Frame of \<open>update_database_entry\<close>: the number of records is unchanged; a record that
  is not the first one whose \<open>url\<close> equals the argument is unchanged; the first such record
  is either unchanged or marked, and marking sets \<open>done\<close> to \<open>done_status\<close>, sets
  \<open>download_path\<close> only when the argument is non-empty, and leaves every other field; when no
  record matches, the store read back equals the store loaded.
\<close>

theorem update_database_entry_frame:
  assumes "update_database_entry url dp st d = (err, d')"
  shows "length (load_database d') = length (load_database d) \<and>
    (\<forall>j<length (load_database d).
       (\<not> first_match url (load_database d) j \<longrightarrow> load_database d' ! j = load_database d ! j) \<and>
       (first_match url (load_database d) j \<longrightarrow>
          (load_database d' ! j = load_database d ! j \<or>
           load_database d' ! j = mark_entry dp st (load_database d ! j)) \<and>
          (err = None \<longrightarrow> map_of (load_database d' ! j) ''done'' = Some st \<and>
             (dp \<noteq> [] \<longrightarrow> map_of (load_database d' ! j) ''download_path'' = Some (JStr dp))) \<and>
          (dp = [] \<longrightarrow> map_of (load_database d' ! j) ''download_path'' =
             map_of (load_database d ! j) ''download_path'') \<and>
          (\<forall>k. k \<noteq> ''done'' \<and> k \<noteq> ''download_path'' \<longrightarrow>
             map_of (load_database d' ! j) k = map_of (load_database d ! j) k))) \<and>
    ((\<forall>j<length (load_database d). \<not> first_match url (load_database d) j) \<longrightarrow>
       load_database d' = load_database d)"
proof -
  from update_database_entry_cases[OF assms] consider
    (raised) "err \<noteq> None" "d' = d"
    | (saved) db' where "err = None" "d' = Holds db'"
        "update_loop url dp st (load_database d) = Inr db'"
    by blast
  then show ?thesis
  proof cases
    case raised
    then show ?thesis by auto
  next
    case saved
    have ld: "load_database d' = db'" using saved(2) by (simp add: load_database_def)
    have len: "length db' = length (load_database d)"
      by (rule update_loop_length[OF saved(3)])
    have nth: "\<And>j. j < length (load_database d) \<Longrightarrow>
        db' ! j = (if first_match url (load_database d) j
                   then mark_entry dp st (load_database d ! j) else load_database d ! j)"
      by (rule update_loop_nth[OF saved(3)])
    have nomatch: "(\<forall>j<length (load_database d). \<not> first_match url (load_database d) j) \<longrightarrow>
        db' = load_database d"
      using update_loop_no_match[OF saved(3)] by blast
    show ?thesis
      unfolding ld
      using len nth nomatch
      by (simp add: map_of_mark_entry_other map_of_mark_entry_done map_of_mark_entry_path)
  qed
qed

theorem update_database_entry_frame_witness:
  "update_database_entry (JStr url_xyz) ''/music'' (JBool True)
     (Holds [result_obj ''Song A'' url_abc, result_obj ''Song X'' url_xyz,
             result_obj ''Song X again'' url_xyz]) =
     (None, Holds [result_obj ''Song A'' url_abc, done_record ''Song X'' url_xyz ''/music'',
                   result_obj ''Song X again'' url_xyz]) \<and>
   first_match (JStr url_xyz)
     [result_obj ''Song A'' url_abc, result_obj ''Song X'' url_xyz,
      result_obj ''Song X again'' url_xyz] 1 \<and>
   map_of (done_record ''Song X'' url_xyz ''/music'') ''done'' = Some (JBool True) \<and>
   map_of (done_record ''Song X'' url_xyz ''/music'') ''title'' =
     map_of (result_obj ''Song X'' url_xyz) ''title''"
proof -
  let ?db = "[result_obj ''Song A'' url_abc, result_obj ''Song X'' url_xyz,
              result_obj ''Song X again'' url_xyz]"
  let ?db' = "[result_obj ''Song A'' url_abc, done_record ''Song X'' url_xyz ''/music'',
               result_obj ''Song X again'' url_xyz]"
  have run: "update_database_entry (JStr url_xyz) ''/music'' (JBool True) (Holds ?db) =
      (None, Holds ?db')"
    by (simp add: update_database_entry_def load_database_def save_database_def
        mark_entry_def result_obj_def done_record_def url_abc_def url_xyz_def)
  have fm: "first_match (JStr url_xyz) ?db 1"
    by (simp add: first_match_def result_obj_def url_abc_def url_xyz_def)
  have one: "1 < length (load_database (Holds ?db))"
    by (simp add: load_database_def)
  have fm': "first_match (JStr url_xyz) (load_database (Holds ?db)) 1"
    using fm by (simp add: load_database_def)
  from update_database_entry_frame[OF run, THEN conjunct2, THEN conjunct1, rule_format, OF one]
  have "map_of (load_database (Holds ?db') ! 1) ''done'' = Some (JBool True) \<and>
        map_of (load_database (Holds ?db') ! 1) ''title'' =
          map_of (load_database (Holds ?db) ! 1) ''title''"
    using fm' by simp
  with run fm show ?thesis by (simp add: load_database_def)
qed

text \<open>
  C6, as the code has it. \<open>update_database_entry\<close> loads the store afresh, looks for the first
  record whose \<open>url\<close> field equals the \<open>url\<close> argument (equality of the stored value, no
  identifier is computed), marks that record in place and writes the whole store back.
\<close>

theorem update_database_entry_by_url:
  assumes "all_have_url (load_database d)"
  shows "\<exists>db'. update_database_entry url dp st d = (None, Holds db') \<and>
    length db' = length (load_database d) \<and>
    (\<forall>j<length (load_database d).
       db' ! j = (if first_match url (load_database d) j
                  then mark_entry dp st (load_database d ! j) else load_database d ! j))"
proof -
  from update_loop_returns[OF assms] obtain db' where
    run: "update_loop url dp st (load_database d) = Inr db'" by blast
  have "update_database_entry url dp st d = (None, Holds db')"
    using run by (simp add: update_database_entry_def save_database_def)
  moreover have "length db' = length (load_database d)"
    by (rule update_loop_length[OF run])
  moreover have "\<forall>j<length (load_database d).
       db' ! j = (if first_match url (load_database d) j
                  then mark_entry dp st (load_database d ! j) else load_database d ! j)"
    using update_loop_nth[OF run] by blast
  ultimately show ?thesis by blast
qed

theorem update_database_entry_by_url_witness:
  "all_have_url (load_database (Holds [result_obj ''Song A'' url_abc])) \<and>
   (\<exists>db'. update_database_entry (JStr url_abc) [] (JStr ''timeout'')
            (Holds [result_obj ''Song A'' url_abc]) = (None, Holds db') \<and>
          length db' = 1 \<and>
          db' ! 0 = mark_entry [] (JStr ''timeout'') (result_obj ''Song A'' url_abc))"
proof -
  have h: "all_have_url (load_database (Holds [result_obj ''Song A'' url_abc]))"
    by (simp add: all_have_url_def load_database_def result_obj_def)
  have fm: "first_match (JStr url_abc) [result_obj ''Song A'' url_abc] 0"
    by (simp add: first_match_def result_obj_def)
  from update_database_entry_by_url[OF h, of "JStr url_abc" "[]" "JStr ''timeout''"] fm
  show ?thesis using h by (simp add: load_database_def)
qed

section \<open>Properties of the conversion pipeline\<close>

lemma load_database_Holds: "load_database (Holds db) = db"
  by (simp add: load_database_def)

lemma process_entry_skip:
  "\<not> not_done (data st ! j) \<Longrightarrow> process_entry tqdm browser dir j st = st"
  by (simp add: process_entry_def not_done_def Let_def)

lemma process_entry_data:
  "data (process_entry tqdm browser dir j st) = data st \<or>
   (\<exists>e. data (process_entry tqdm browser dir j st) = (data st)[j := e])"
  by (auto simp: process_entry_def Let_def on_exception_def save_after_entry_def write_file_def
      set_item_def split: outcome.splits prod.splits option.splits)

lemma process_entry_length:
  "length (data (process_entry tqdm browser dir j st)) = length (data st)"
  using process_entry_data[of tqdm browser dir j st] by auto

lemma process_entry_other:
  "i \<noteq> j \<Longrightarrow> data (process_entry tqdm browser dir j st) ! i = data st ! i"
  using process_entry_data[of tqdm browser dir j st] by auto

lemma process_entry_count:
  "processed_count (process_entry tqdm browser dir j st) \<le>
     processed_count st + (if not_done (data st ! j) then 1 else 0)"
  by (auto simp: process_entry_def not_done_def Let_def on_exception_def save_after_entry_def
      write_file_def split: outcome.splits prod.splits option.splits)

lemma process_entry_aborted:
  "aborted st = None \<Longrightarrow> title_shown tqdm (data st ! j) \<Longrightarrow>
   aborted (process_entry tqdm browser dir j st) = None"
  by (auto simp: process_entry_def not_done_def title_shown_def Let_def on_exception_def
      save_after_entry_def write_file_def split: outcome.splits prod.splits option.splits)

lemma process_entry_visited:
  "aborted st = None \<Longrightarrow> title_shown tqdm (data st ! j) \<Longrightarrow>
   visited (process_entry tqdm browser dir j st) =
     visited st @ (if not_done (data st ! j) then [j] else [])"
  by (auto simp: process_entry_def not_done_def title_shown_def Let_def on_exception_def
      save_after_entry_def write_file_def split: outcome.splits prod.splits option.splits)

lemma process_entry_timeout:
  assumes "j < length (data st)" and "not_done (data st ! j)"
    and "aborted st = None" and "title_shown tqdm (data st ! j)"
    and "browser j = DownloadTimeout \<or> browser j = Raises"
  shows "data (process_entry tqdm browser dir j st) ! j =
     AList.update ''done'' (JStr ''timeout'') (data st ! j)"
  using assms
  by (auto simp: process_entry_def not_done_def title_shown_def Let_def on_exception_def
      save_after_entry_def write_file_def set_item_def
      split: outcome.splits prod.splits option.splits)

lemma titles_shown_nth:
  "tqdm \<longrightarrow> titles_shown db \<Longrightarrow> j < length db \<Longrightarrow> title_shown tqdm (db ! j)"
  by (auto simp: titles_shown_def title_shown_def)

lemma fold_process_entry:
  assumes "k \<le> length (data st0)" and "aborted st0 = None"
    and "tqdm \<longrightarrow> titles_shown (data st0)"
  shows "length (data (fold (process_entry tqdm browser dir) [0..<k] st0)) = length (data st0) \<and>
    aborted (fold (process_entry tqdm browser dir) [0..<k] st0) = None \<and>
    (\<forall>j\<ge>k. data (fold (process_entry tqdm browser dir) [0..<k] st0) ! j = data st0 ! j) \<and>
    visited (fold (process_entry tqdm browser dir) [0..<k] st0) =
      visited st0 @ filter (\<lambda>j. not_done (data st0 ! j)) [0..<k] \<and>
    processed_count (fold (process_entry tqdm browser dir) [0..<k] st0) \<le>
      processed_count st0 + length (filter (\<lambda>j. not_done (data st0 ! j)) [0..<k]) \<and>
    (\<forall>i<k. \<not> not_done (data st0 ! i) \<longrightarrow>
       data (fold (process_entry tqdm browser dir) [0..<k] st0) ! i = data st0 ! i) \<and>
    (\<forall>i<k. not_done (data st0 ! i) \<and> (browser i = DownloadTimeout \<or> browser i = Raises) \<longrightarrow>
       data (fold (process_entry tqdm browser dir) [0..<k] st0) ! i =
         AList.update ''done'' (JStr ''timeout'') (data st0 ! i))"
  using assms(1)
proof (induction k)
  case 0
  then show ?case using assms(2) by simp
next
  case (Suc k)
  let ?st = "fold (process_entry tqdm browser dir) [0..<k] st0"
  let ?st' = "process_entry tqdm browser dir k ?st"
  from Suc.prems have k: "k < length (data st0)" by simp
  with Suc.IH have
    len: "length (data ?st) = length (data st0)" and
    run: "aborted ?st = None" and
    rest: "\<forall>j\<ge>k. data ?st ! j = data st0 ! j" and
    vis: "visited ?st = visited st0 @ filter (\<lambda>j. not_done (data st0 ! j)) [0..<k]" and
    cnt: "processed_count ?st \<le>
            processed_count st0 + length (filter (\<lambda>j. not_done (data st0 ! j)) [0..<k])" and
    skipped: "\<forall>i<k. \<not> not_done (data st0 ! i) \<longrightarrow> data ?st ! i = data st0 ! i" and
    marked: "\<forall>i<k. not_done (data st0 ! i) \<and> (browser i = DownloadTimeout \<or> browser i = Raises) \<longrightarrow>
               data ?st ! i = AList.update ''done'' (JStr ''timeout'') (data st0 ! i)"
    by simp_all
  have step: "fold (process_entry tqdm browser dir) [0..<Suc k] st0 = ?st'" by simp
  have cur: "data ?st ! k = data st0 ! k" using rest by simp
  have shown: "title_shown tqdm (data ?st ! k)"
    using titles_shown_nth[OF assms(3) k] cur by simp
  have 0: "aborted ?st' = None"
    by (rule process_entry_aborted[OF run shown])
  have 1: "length (data ?st') = length (data st0)"
    using len by (simp add: process_entry_length)
  have 2: "\<forall>j\<ge>Suc k. data ?st' ! j = data st0 ! j"
    using rest by (simp add: process_entry_other)
  have 3: "visited ?st' = visited st0 @ filter (\<lambda>j. not_done (data st0 ! j)) [0..<Suc k]"
    using vis cur by (simp add: process_entry_visited[OF run shown])
  have 4: "processed_count ?st' \<le>
      processed_count st0 + length (filter (\<lambda>j. not_done (data st0 ! j)) [0..<Suc k])"
    using cnt cur process_entry_count[of tqdm browser dir k ?st] by auto
  have 5: "\<forall>i<Suc k. \<not> not_done (data st0 ! i) \<longrightarrow> data ?st' ! i = data st0 ! i"
  proof (intro allI impI)
    fix i assume i: "i < Suc k" and d: "\<not> not_done (data st0 ! i)"
    show "data ?st' ! i = data st0 ! i"
    proof (cases "i = k")
      case True
      with d cur show ?thesis by (simp add: process_entry_skip)
    next
      case False
      with i skipped d show ?thesis by (simp add: process_entry_other)
    qed
  qed
  have 6: "\<forall>i<Suc k. not_done (data st0 ! i) \<and> (browser i = DownloadTimeout \<or> browser i = Raises) \<longrightarrow>
      data ?st' ! i = AList.update ''done'' (JStr ''timeout'') (data st0 ! i)"
  proof (intro allI impI)
    fix i assume i: "i < Suc k"
      and h: "not_done (data st0 ! i) \<and> (browser i = DownloadTimeout \<or> browser i = Raises)"
    show "data ?st' ! i = AList.update ''done'' (JStr ''timeout'') (data st0 ! i)"
    proof (cases "i = k")
      case True
      have "data ?st' ! k = AList.update ''done'' (JStr ''timeout'') (data ?st ! k)"
        using h True cur k len run shown by (intro process_entry_timeout) simp_all
      with True cur show ?thesis by simp
    next
      case False
      with i marked h show ?thesis by (simp add: process_entry_other)
    qed
  qed
  show ?case unfolding step using 0 1 2 3 4 5 6 by blast
qed

lemma length_filter_nth:
  "length (filter (\<lambda>j. P (xs ! j)) [0..<length xs]) = length (filter P xs)"
proof -
  have "filter P xs = filter P (map (\<lambda>j. xs ! j) [0..<length xs])"
    by (simp add: map_nth)
  also have "length \<dots> = length (filter (\<lambda>j. P (xs ! j)) [0..<length xs])"
    by (simp add: filter_map comp_def)
  finally show ?thesis by simp
qed

lemma process_file_run:
  "process_file tqdm browser dir d =
     (if filter not_done (load_database d) = []
      then \<lparr>data = load_database d, disk = d, processed_count = 0, successful_downloads = 0,
            visited = [], written = [], aborted = None\<rparr>
      else (let st' = fold (process_entry tqdm browser dir) [0..<length (load_database d)]
                \<lparr>data = load_database d, disk = d, processed_count = 0,
                 successful_downloads = 0, visited = [], written = [], aborted = None\<rparr>
            in if aborted st' \<noteq> None then st' else save_after_entry st'))"
  by (simp add: process_file_def Let_def)

text \<open>
  What a conversion run does when no title stops the progress bar: the loop is not left by
  an exception, the file ends holding the records in memory, the records selected are the
  ones not done, in order, a record done at the start is unchanged, and a record whose
  Download button did not appear, or for which the browser raised, is the loaded one with
  \<open>done\<close> set to \<open>"timeout"\<close>.
\<close>

lemma process_file_summary:
  assumes "tqdm \<longrightarrow> titles_shown (load_database d)"
  shows "aborted (process_file tqdm browser dir d) = None \<and>
   length (data (process_file tqdm browser dir d)) = length (load_database d) \<and>
   load_database (disk (process_file tqdm browser dir d)) = data (process_file tqdm browser dir d) \<and>
   visited (process_file tqdm browser dir d) =
     filter (\<lambda>j. not_done (load_database d ! j)) [0..<length (load_database d)] \<and>
   processed_count (process_file tqdm browser dir d) \<le> length (filter not_done (load_database d)) \<and>
   (\<forall>i<length (load_database d). \<not> not_done (load_database d ! i) \<longrightarrow>
      data (process_file tqdm browser dir d) ! i = load_database d ! i) \<and>
   (\<forall>i<length (load_database d).
      not_done (load_database d ! i) \<and> (browser i = DownloadTimeout \<or> browser i = Raises) \<longrightarrow>
      data (process_file tqdm browser dir d) ! i =
        AList.update ''done'' (JStr ''timeout'') (load_database d ! i))"
proof (cases "filter not_done (load_database d) = []")
  case True
  then have none: "\<forall>e\<in>set (load_database d). \<not> not_done e"
    by (simp add: filter_empty_conv)
  then have "filter (\<lambda>j. not_done (load_database d ! j)) [0..<length (load_database d)] = []"
    by (simp add: filter_empty_conv)
  moreover have "\<forall>i<length (load_database d). \<not> not_done (load_database d ! i)"
    using none by simp
  ultimately show ?thesis using True by (simp add: process_file_run)
next
  case False
  let ?st0 = "\<lparr>data = load_database d, disk = d, processed_count = 0,
               successful_downloads = 0, visited = [], written = [], aborted = None\<rparr>"
  let ?f = "fold (process_entry tqdm browser dir) [0..<length (load_database d)] ?st0"
  have "length (load_database d) \<le> length (data ?st0)" and "aborted ?st0 = None"
    and "tqdm \<longrightarrow> titles_shown (data ?st0)"
    using assms by simp_all
  from fold_process_entry[OF this, of browser dir]
  have inv: "length (data ?f) = length (load_database d) \<and>
    aborted ?f = None \<and>
    visited ?f = filter (\<lambda>j. not_done (load_database d ! j)) [0..<length (load_database d)] \<and>
    processed_count ?f \<le>
      length (filter (\<lambda>j. not_done (load_database d ! j)) [0..<length (load_database d)]) \<and>
    (\<forall>i<length (load_database d). \<not> not_done (load_database d ! i) \<longrightarrow>
       data ?f ! i = load_database d ! i) \<and>
    (\<forall>i<length (load_database d).
       not_done (load_database d ! i) \<and> (browser i = DownloadTimeout \<or> browser i = Raises) \<longrightarrow>
       data ?f ! i = AList.update ''done'' (JStr ''timeout'') (load_database d ! i))"
    by simp
  have pf: "process_file tqdm browser dir d = save_after_entry ?f"
    using False inv by (simp add: process_file_run)
  have sv: "data (save_after_entry ?f) = data ?f" "aborted (save_after_entry ?f) = aborted ?f"
    "visited (save_after_entry ?f) = visited ?f"
    "processed_count (save_after_entry ?f) = processed_count ?f"
    "load_database (disk (save_after_entry ?f)) = data ?f"
    by (simp_all add: save_after_entry_def write_file_def save_database_def load_database_Holds)
  show ?thesis
    unfolding pf sv using inv by (simp add: length_filter_nth)
qed

lemma process_file_last_write:
  assumes "tqdm \<longrightarrow> titles_shown (load_database d)"
    and "filter not_done (load_database d) \<noteq> []"
  shows "written (process_file tqdm browser dir d) \<noteq> [] \<and>
   last (written (process_file tqdm browser dir d)) = disk (process_file tqdm browser dir d)"
proof -
  let ?st0 = "\<lparr>data = load_database d, disk = d, processed_count = 0,
               successful_downloads = 0, visited = [], written = [], aborted = None\<rparr>"
  have "length (load_database d) \<le> length (data ?st0)" and "aborted ?st0 = None"
    and "tqdm \<longrightarrow> titles_shown (data ?st0)"
    using assms(1) by simp_all
  from fold_process_entry[OF this, of browser dir]
  have "aborted (fold (process_entry tqdm browser dir) [0..<length (load_database d)] ?st0) = None"
    by simp
  then show ?thesis
    using assms(2) by (simp add: process_file_run Let_def save_after_entry_def write_file_def)
qed

text \<open>
  C3. Timeout fallback: when the Download button does not appear for a selected record, the
  last write of the run is the state of the file after it, and in it the record is the one
  loaded with only \<open>done\<close> set to \<open>"timeout"\<close>: the status is \<open>"timeout"\<close>, not \<open>True\<close>, and
  \<open>download_path\<close> is what it was. (With \<open>tqdm\<close> installed, the titles of the records to
  process are strings: another title stops the run at its record.)
\<close>

theorem timeout_fallback:
  assumes "i < length (load_database d)"
    and "not_done (load_database d ! i)"
    and "browser i = DownloadTimeout"
    and "tqdm \<longrightarrow> titles_shown (load_database d)"
  shows "written (process_file tqdm browser dir d) \<noteq> [] \<and>
    last (written (process_file tqdm browser dir d)) = disk (process_file tqdm browser dir d) \<and>
    load_database (disk (process_file tqdm browser dir d)) ! i =
      AList.update ''done'' (JStr ''timeout'') (load_database d ! i) \<and>
    map_of (load_database (disk (process_file tqdm browser dir d)) ! i) ''done'' =
      Some (JStr ''timeout'') \<and>
    map_of (load_database (disk (process_file tqdm browser dir d)) ! i) ''done'' \<noteq>
      Some (JBool True) \<and>
    map_of (load_database (disk (process_file tqdm browser dir d)) ! i) ''download_path'' =
      map_of (load_database d ! i) ''download_path''"
proof -
  let ?st = "process_file tqdm browser dir d"
  have "load_database d ! i \<in> set (filter not_done (load_database d))"
    using assms(1,2) by simp
  then have sel: "filter not_done (load_database d) \<noteq> []"
    by (metis empty_iff list.set(1))
  have "data ?st ! i = AList.update ''done'' (JStr ''timeout'') (load_database d ! i)"
    using process_file_summary[OF assms(4), of browser dir] assms(1,2,3) by blast
  moreover have "load_database (disk ?st) = data ?st"
    using process_file_summary[OF assms(4), of browser dir] by blast
  ultimately have rec: "load_database (disk ?st) ! i =
      AList.update ''done'' (JStr ''timeout'') (load_database d ! i)"
    by simp
  show ?thesis
    unfolding rec using process_file_last_write[OF assms(4) sel, of browser dir]
    by (simp add: AList.update_conv')
qed

theorem timeout_fallback_witness:
  "0 < length (load_database (Holds [result_obj ''Song A'' url_abc])) \<and>
   not_done (load_database (Holds [result_obj ''Song A'' url_abc]) ! 0) \<and>
   titles_shown (load_database (Holds [result_obj ''Song A'' url_abc])) \<and>
   load_database (disk (process_file True (\<lambda>i. DownloadTimeout) ''/music''
       (Holds [result_obj ''Song A'' url_abc]))) ! 0 =
     [(''title'', JStr ''Song A''), (''url'', JStr url_abc), (''done'', JStr ''timeout''),
      (''download_path'', JStr ''''), (''project'', JStr '''')]"
proof -
  let ?d = "Holds [result_obj ''Song A'' url_abc]"
  have h1: "0 < length (load_database ?d)" by (simp add: load_database_def)
  have h2: "not_done (load_database ?d ! 0)"
    by (simp add: load_database_def not_done_def result_obj_def)
  have h3: "(\<lambda>i::nat. DownloadTimeout) 0 = DownloadTimeout" by simp
  have h4: "titles_shown (load_database ?d)"
    by (simp add: titles_shown_def load_database_def is_str_def result_obj_def)
  then have h4': "True \<longrightarrow> titles_shown (load_database ?d)" by simp
  from timeout_fallback[of 0 ?d "\<lambda>i. DownloadTimeout" True "''/music''", OF h1 h2 h3 h4'] h1 h2 h4
  show ?thesis by (simp add: load_database_def result_obj_def)
qed

text \<open>
  C2, at a store where a finished record and a pending one have the same \<open>url\<close>. The pending
  record times out; \<open>update_database_entry\<close> marks the first record with that \<open>url\<close>, the
  finished one, and the first write of the run stores it with \<open>done = "timeout"\<close> and the
  new \<open>download_path\<close>. The \<open>save_database(data)\<close> that follows writes it back as it was.
\<close>

theorem done_record_overwritten:
  "map_of (load_database
      (Holds [done_record ''Song A'' url_abc ''/old'', result_obj ''Song A again'' url_abc]) ! 0)
     ''done'' = Some (JBool True) \<and>
   written (process_file True (\<lambda>i. DownloadTimeout) ''/music''
      (Holds [done_record ''Song A'' url_abc ''/old'', result_obj ''Song A again'' url_abc])) =
     [Holds [[(''title'', JStr ''Song A''), (''url'', JStr url_abc), (''done'', JStr ''timeout''),
              (''download_path'', JStr ''/music''), (''project'', JStr '''')],
             result_obj ''Song A again'' url_abc],
      Holds [done_record ''Song A'' url_abc ''/old'',
             [(''title'', JStr ''Song A again''), (''url'', JStr url_abc),
              (''done'', JStr ''timeout''), (''download_path'', JStr ''''),
              (''project'', JStr '''')]],
      Holds [done_record ''Song A'' url_abc ''/old'',
             [(''title'', JStr ''Song A again''), (''url'', JStr url_abc),
              (''done'', JStr ''timeout''), (''download_path'', JStr ''''),
              (''project'', JStr '''')]]]"
  by (simp add: process_file_def process_entry_def not_done_def is_str_def Let_def
      load_database_def save_database_def save_after_entry_def write_file_def set_item_def
      on_exception_def update_database_entry_def mark_entry_def done_record_def result_obj_def
      upt_rec)

text \<open>
  C4, at a store of two pending records where the browser raises on the first. After the
  loop body for the first record, when the second begins, the record is \<open>"timeout"\<close> in
  memory, nothing has been written, and the file still holds it as pending.
\<close>

theorem exception_not_persisted:
  "map_of (data (process_entry True (\<lambda>i. Raises) ''/music'' 0
      \<lparr>data = [result_obj ''Song A'' url_abc, result_obj ''Song B'' url_xyz],
       disk = Holds [result_obj ''Song A'' url_abc, result_obj ''Song B'' url_xyz],
       processed_count = 0, successful_downloads = 0, visited = [], written = [],
       aborted = None\<rparr>) ! 0)
     ''done'' = Some (JStr ''timeout'') \<and>
   written (process_entry True (\<lambda>i. Raises) ''/music'' 0
      \<lparr>data = [result_obj ''Song A'' url_abc, result_obj ''Song B'' url_xyz],
       disk = Holds [result_obj ''Song A'' url_abc, result_obj ''Song B'' url_xyz],
       processed_count = 0, successful_downloads = 0, visited = [], written = [],
       aborted = None\<rparr>) = [] \<and>
   map_of (load_database (disk (process_entry True (\<lambda>i. Raises) ''/music'' 0
      \<lparr>data = [result_obj ''Song A'' url_abc, result_obj ''Song B'' url_xyz],
       disk = Holds [result_obj ''Song A'' url_abc, result_obj ''Song B'' url_xyz],
       processed_count = 0, successful_downloads = 0, visited = [], written = [],
       aborted = None\<rparr>)) ! 0)
     ''done'' = Some (JBool False)"
  by (simp add: process_entry_def is_str_def Let_def load_database_def on_exception_def
      set_item_def result_obj_def)

section \<open>Properties of the discovery pipeline\<close>

lemma extract_video_id_parsed:
  "urlparse lib u = Inr p \<Longrightarrow>
   extract_video_id lib u =
     (if is_watch_url lib p
      then (case the (map_of (parse_qs lib (query p)) ''v'') of
              [] \<Rightarrow> Inl IndexError | v # _ \<Rightarrow> Inr (Some v))
      else Inr None)"
  by (auto simp: extract_video_id_def is_watch_url_def split: option.splits list.splits)

lemma check_duplicate_no_id:
  "extract_video_id lib (JStr u) = Inr None \<Longrightarrow> check_duplicate lib u db = Inr None"
  by (simp add: check_duplicate_def)

lemma main_step_no_id:
  "extract_video_id lib (JStr u) = Inr None \<Longrightarrow> u \<noteq> [] \<Longrightarrow>
   main_step lib db (q, Inr (Some u)) st =
     Inr (st\<lparr>new_entries := new_entries st @ [result_obj q u],
             queries_processed := queries_processed st + 1\<rparr>)"
  by (simp add: main_step_def check_duplicate_no_id)

text \<open>
  C5. Extraction rule, for a URL that \<open>urlparse\<close> accepts and a \<open>parse_qs\<close> that, as the
  library does, gives each parameter a non-empty list of non-blank values:
  \<open>extract_video_id\<close> returns an identifier, non-empty and the first value of \<open>v\<close>, exactly
  when the hostname is \<open>youtube.com\<close> or \<open>www.youtube.com\<close>, the path is \<open>/watch\<close> and there
  is a \<open>v\<close> parameter; for any other URL it returns \<open>None\<close>. A URL without identifier is
  not a duplicate, whatever the database holds, and \<open>main\<close> appends a record for it.
\<close>

theorem extract_video_id_rule:
  assumes "urlparse lib (JStr u) = Inr p"
    and "\<forall>vs. map_of (parse_qs lib (query p)) ''v'' = Some vs \<longrightarrow> vs \<noteq> [] \<and> hd vs \<noteq> []"
  shows "((\<exists>vid. extract_video_id lib (JStr u) = Inr (Some vid) \<and> vid \<noteq> [] \<and>
             (\<exists>vs. map_of (parse_qs lib (query p)) ''v'' = Some (vid # vs))) \<longleftrightarrow>
          is_watch_url lib p) \<and>
    (\<not> is_watch_url lib p \<longrightarrow> extract_video_id lib (JStr u) = Inr None) \<and>
    (extract_video_id lib (JStr u) = Inr None \<longrightarrow>
       check_duplicate lib u db = Inr None \<and>
       (u \<noteq> [] \<longrightarrow>
          main_step lib db (q, Inr (Some u)) st =
            Inr (st\<lparr>new_entries := new_entries st @ [result_obj q u],
                    queries_processed := queries_processed st + 1\<rparr>)))"
proof (intro conjI impI)
  show "(\<exists>vid. extract_video_id lib (JStr u) = Inr (Some vid) \<and> vid \<noteq> [] \<and>
             (\<exists>vs. map_of (parse_qs lib (query p)) ''v'' = Some (vid # vs))) \<longleftrightarrow>
          is_watch_url lib p"
  proof
    assume "\<exists>vid. extract_video_id lib (JStr u) = Inr (Some vid) \<and> vid \<noteq> [] \<and>
             (\<exists>vs. map_of (parse_qs lib (query p)) ''v'' = Some (vid # vs))"
    then show "is_watch_url lib p"
      using extract_video_id_parsed[OF assms(1)] by (auto split: if_splits)
  next
    assume w: "is_watch_url lib p"
    then obtain vs where vs: "map_of (parse_qs lib (query p)) ''v'' = Some vs"
      by (auto simp: is_watch_url_def)
    with assms(2) obtain v rest where v: "vs = v # rest" "v \<noteq> []"
      by (cases vs) auto
    have "extract_video_id lib (JStr u) = Inr (Some v)"
      using extract_video_id_parsed[OF assms(1)] w vs v by simp
    with vs v show "\<exists>vid. extract_video_id lib (JStr u) = Inr (Some vid) \<and> vid \<noteq> [] \<and>
             (\<exists>vs. map_of (parse_qs lib (query p)) ''v'' = Some (vid # vs))"
      by blast
  qed
next
  assume "\<not> is_watch_url lib p"
  then show "extract_video_id lib (JStr u) = Inr None"
    using extract_video_id_parsed[OF assms(1)] by simp
next
  assume "extract_video_id lib (JStr u) = Inr None"
  then show "check_duplicate lib u db = Inr None" by (rule check_duplicate_no_id)
next
  assume "extract_video_id lib (JStr u) = Inr None" and "u \<noteq> []"
  then show "main_step lib db (q, Inr (Some u)) st =
            Inr (st\<lparr>new_entries := new_entries st @ [result_obj q u],
                    queries_processed := queries_processed st + 1\<rparr>)"
    by (rule main_step_no_id)
qed

lemma example_urlparse_abc:
  "urlparse example_lib (JStr url_abc) =
     Inr \<lparr>hostname = Some ''www.youtube.com'', path = ''/watch'', query = ''v=abc123''\<rparr>"
  by (simp add: example_lib_def)

lemma example_urlparse_short:
  "urlparse example_lib (JStr url_short) =
     Inr \<lparr>hostname = Some ''youtu.be'', path = ''/abc123'', query = ''''\<rparr>"
  by (simp add: example_lib_def url_short_def url_abc_def url_abc_t_def url_xyz_def)

theorem extract_video_id_rule_witness:
  "extract_video_id example_lib (JStr url_abc) = Inr (Some ''abc123'') \<and>
   is_watch_url example_lib
     \<lparr>hostname = Some ''www.youtube.com'', path = ''/watch'', query = ''v=abc123''\<rparr> \<and>
   extract_video_id example_lib (JStr url_short) = Inr None \<and>
   check_duplicate example_lib url_short [result_obj ''Song A'' url_abc] = Inr None"
proof -
  let ?p = "\<lparr>hostname = Some ''www.youtube.com'', path = ''/watch'', query = ''v=abc123''\<rparr>"
  let ?s = "\<lparr>hostname = Some ''youtu.be'', path = ''/abc123'', query = ''''\<rparr>"
  have c1: "\<forall>vs. map_of (parse_qs example_lib (query ?p)) ''v'' = Some vs \<longrightarrow>
      vs \<noteq> [] \<and> hd vs \<noteq> []"
    by (simp add: example_lib_def)
  have c2: "\<forall>vs. map_of (parse_qs example_lib (query ?s)) ''v'' = Some vs \<longrightarrow>
      vs \<noteq> [] \<and> hd vs \<noteq> []"
    by (simp add: example_lib_def)
  have w: "is_watch_url example_lib ?p"
    by (simp add: is_watch_url_def example_lib_def)
  have nw: "\<not> is_watch_url example_lib ?s"
    by (simp add: is_watch_url_def)
  have v: "map_of (parse_qs example_lib (query ?p)) ''v'' = Some [''abc123'']"
    by (simp add: example_lib_def)
  from extract_video_id_rule[OF example_urlparse_abc c1] w v
  have a: "extract_video_id example_lib (JStr url_abc) = Inr (Some ''abc123'')"
    by auto
  from extract_video_id_rule[OF example_urlparse_short c2, of "[result_obj ''Song A'' url_abc]"] nw
  have b: "extract_video_id example_lib (JStr url_short) = Inr None \<and>
      check_duplicate example_lib url_short [result_obj ''Song A'' url_abc] = Inr None"
    by blast
  from a b w show ?thesis by simp
qed

lemma example_extract_abc:
  "extract_video_id example_lib (JStr url_abc) = Inr (Some ''abc123'')"
  by (simp add: extract_video_id_def example_lib_def)

lemma example_extract_abc_t:
  "extract_video_id example_lib (JStr url_abc_t) = Inr (Some ''abc123'')"
  by (simp add: extract_video_id_def example_lib_def url_abc_def url_abc_t_def)

lemma example_extract_xyz:
  "extract_video_id example_lib (JStr url_xyz) = Inr (Some ''xyz789'')"
  by (simp add: extract_video_id_def example_lib_def url_abc_def url_abc_t_def url_xyz_def)

lemma example_extract_short:
  "extract_video_id example_lib (JStr url_short) = Inr None"
  by (simp add: extract_video_id_def example_lib_def url_abc_def url_abc_t_def url_xyz_def
      url_short_def)

lemma example_urls_nonempty:
  "url_abc \<noteq> []" "url_abc_t \<noteq> []" "url_xyz \<noteq> []" "url_short \<noteq> []"
  by (simp_all add: url_abc_def url_abc_t_def url_xyz_def url_short_def)

lemma example_urls_distinct:
  "url_abc \<noteq> url_abc_t" "url_abc_t \<noteq> url_abc" "url_abc \<noteq> url_xyz" "url_xyz \<noteq> url_abc"
  "url_abc_t \<noteq> url_xyz" "url_xyz \<noteq> url_abc_t"
  by (simp_all add: url_abc_def url_abc_t_def url_xyz_def)

text \<open>
  What the dedup check does find: when the database passed to \<open>check_duplicate\<close> holds a
  record whose URL has the identifier of the new URL, and \<open>extract_video_id\<close> returns on
  the stored URLs, the result is a record of the database with that identifier (the first
  one), and \<open>main\<close> reports the query as a duplicate of it without a new record.
\<close>

lemma check_loop_finds:
  assumes "e1 \<in> set db" and "map_of e1 ''url'' = Some u1"
    and "extract_video_id lib u1 = Inr vid"
    and "\<forall>e\<in>set db. \<exists>u r. map_of e ''url'' = Some u \<and> extract_video_id lib u = Inr r"
  shows "\<exists>e. check_loop lib vid db = Inr (Some e) \<and> e \<in> set db \<and>
     (\<exists>u. map_of e ''url'' = Some u \<and> extract_video_id lib u = Inr vid)"
  using assms
proof (induction db)
  case Nil
  then show ?case by simp
next
  case (Cons e es)
  from Cons.prems(4) obtain u r where
    u: "map_of e ''url'' = Some u" and r: "extract_video_id lib u = Inr r"
    by auto
  show ?case
  proof (cases "r = vid")
    case True
    with u r show ?thesis by auto
  next
    case False
    with Cons.prems(1,2,3) u r have "e1 \<in> set es" by auto
    with Cons.IH Cons.prems(2,3,4) obtain e' where
      "check_loop lib vid es = Inr (Some e')" "e' \<in> set es"
      "\<exists>u. map_of e' ''url'' = Some u \<and> extract_video_id lib u = Inr vid"
      by auto
    with False u r show ?thesis by auto
  qed
qed

lemma duplicate_of_stored_record:
  assumes "extract_video_id lib (JStr u2) = Inr (Some vid)" and "vid \<noteq> []" and "u2 \<noteq> []"
    and "e1 \<in> set db" and "map_of e1 ''url'' = Some u1"
    and "extract_video_id lib u1 = Inr (Some vid)"
    and "\<forall>e\<in>set db. map_of e ''title'' \<noteq> None \<and>
           (\<exists>u r. map_of e ''url'' = Some u \<and> extract_video_id lib u = Inr r)"
  shows "\<exists>e. check_duplicate lib u2 db = Inr (Some e) \<and> e \<in> set db \<and>
     (\<exists>u. map_of e ''url'' = Some u \<and> extract_video_id lib u = Inr (Some vid)) \<and>
     main_step lib db (q, Inr (Some u2)) st =
       Inr (st\<lparr>duplicates_found := duplicates_found st @ [(q, e)],
               queries_processed := queries_processed st + 1\<rparr>)"
proof -
  from assms(7) have urls:
    "\<forall>e\<in>set db. \<exists>u r. map_of e ''url'' = Some u \<and> extract_video_id lib u = Inr r"
    by blast
  from check_loop_finds[OF assms(4,5,6) urls] obtain e where
    e: "check_loop lib (Some vid) db = Inr (Some e)" "e \<in> set db"
       "\<exists>u. map_of e ''url'' = Some u \<and> extract_video_id lib u = Inr (Some vid)"
    by blast
  have cd: "check_duplicate lib u2 db = Inr (Some e)"
    using assms(1,2) e(1) by (simp add: check_duplicate_def)
  have "e \<noteq> []" using e(3) by auto
  moreover have "map_of e ''title'' \<noteq> None" using assms(7) e(2) by blast
  ultimately have "main_step lib db (q, Inr (Some u2)) st =
       Inr (st\<lparr>duplicates_found := duplicates_found st @ [(q, e)],
               queries_processed := queries_processed st + 1\<rparr>)"
    using cd assms(3) by (simp add: main_step_def)
  with cd e show ?thesis by blast
qed

text \<open>
  A discovery run completes when there is a query, every search returns, and
  \<open>check_duplicate\<close> returns, with a record that has a title, on every URL found.
\<close>

lemma main_loop_completes:
  assumes "\<forall>qr\<in>set qs. \<exists>res. snd qr = Inr res"
    and "\<forall>qu\<in>set (found_urls qs). \<exists>dup. check_duplicate lib (snd qu) db = Inr dup \<and>
           (\<forall>e. dup = Some e \<longrightarrow> map_of e ''title'' \<noteq> None)"
  shows "\<exists>st'. main_loop lib db qs st = Inr st'"
  using assms
proof (induction qs arbitrary: st)
  case Nil
  then show ?case by simp
next
  case (Cons qr rest)
  obtain q r where qr: "qr = (q, r)" by (cases qr)
  from Cons.prems(1) qr obtain res where res: "r = Inr res" by auto
  have rest1: "\<forall>qr\<in>set rest. \<exists>res. snd qr = Inr res" using Cons.prems(1) by simp
  have rest2: "\<forall>qu\<in>set (found_urls rest). \<exists>dup. check_duplicate lib (snd qu) db = Inr dup \<and>
           (\<forall>e. dup = Some e \<longrightarrow> map_of e ''title'' \<noteq> None)"
    using Cons.prems(2) qr res by (cases res) (auto split: if_splits)
  have "\<exists>st1. main_step lib db qr st = Inr st1"
  proof (cases res)
    case None
    with qr res show ?thesis by (simp add: main_step_def)
  next
    case (Some u)
    show ?thesis
    proof (cases "u = []")
      case True
      with Some qr res show ?thesis by (simp add: main_step_def)
    next
      case False
      with Some qr res Cons.prems(2) obtain dup where
        "check_duplicate lib u db = Inr dup" "\<forall>e. dup = Some e \<longrightarrow> map_of e ''title'' \<noteq> None"
        by auto
      with False Some qr res show ?thesis by (cases dup) (auto simp: main_step_def)
    qed
  qed
  then obtain st1 where "main_step lib db qr st = Inr st1" by blast
  with Cons.IH[OF rest1 rest2, of st1] show ?case by simp
qed

lemma main_completes:
  assumes "queries \<noteq> []" and "\<forall>qr\<in>set queries. \<exists>res. snd qr = Inr res"
    and "\<forall>qu\<in>set (found_urls queries).
           \<exists>dup. check_duplicate lib (snd qu) (load_database d) = Inr dup \<and>
             (\<forall>e. dup = Some e \<longrightarrow> map_of e ''title'' \<noteq> None)"
  shows "\<exists>d' r w. main lib queries d = Inr (d', r, w)"
proof -
  from main_loop_completes[OF assms(2,3)] obtain st' where
    "main_loop lib (load_database d) queries
       \<lparr>new_entries = [], duplicates_found = [], queries_processed = 0\<rparr> = Inr st'"
    by blast
  with assms(1) show ?thesis by (simp add: main_def Let_def)
qed

text \<open>
  C1, at an empty store and a batch of two queries whose results have the same identifier.
  \<open>check_duplicate\<close> is run against the records loaded before the loop, the record of the
  first query is only in \<open>new_entries\<close>, so the second is not reported as a duplicate and
  the store gets both.
\<close>

theorem same_batch_duplicate:
  "extract_video_id example_lib (JStr url_abc) = Inr (Some ''abc123'') \<and>
   extract_video_id example_lib (JStr url_abc_t) = Inr (Some ''abc123'') \<and>
   main example_lib
     [(''Song A'', Inr (Some url_abc)), (''Song A live'', Inr (Some url_abc_t))] (Holds []) =
     Inr (Holds [result_obj ''Song A'' url_abc, result_obj ''Song A live'' url_abc_t],
          \<lparr>new_entries = [result_obj ''Song A'' url_abc, result_obj ''Song A live'' url_abc_t],
           duplicates_found = [], queries_processed = 2\<rparr>,
          [Holds [result_obj ''Song A'' url_abc, result_obj ''Song A live'' url_abc_t]])"
  by (simp add: main_def Let_def main_step_def check_duplicate_def example_extract_abc
      example_extract_abc_t example_urls_nonempty load_database_def save_database_def)

text \<open>
  C6 as stated fails: the two URLs have the same identifier, and a call with one does not
  touch the record that holds the other.
\<close>

theorem update_by_identifier_counterexample:
  "extract_video_id example_lib (JStr url_abc) = extract_video_id example_lib (JStr url_abc_t) \<and>
   extract_video_id example_lib (JStr url_abc) = Inr (Some ''abc123'') \<and>
   update_database_entry (JStr url_abc) ''/music'' (JBool True)
     (Holds [result_obj ''Song A'' url_abc_t]) =
     (None, Holds [result_obj ''Song A'' url_abc_t])"
  by (simp add: update_database_entry_def load_database_def save_database_def
      example_extract_abc example_extract_abc_t example_urls_distinct result_obj_def)

lemma main_step_new_entries:
  "main_step lib db qr st = Inr st' \<Longrightarrow>
   new_entries st' =
     new_entries st @
       map (\<lambda>(q, u). result_obj q u) (filter (\<lambda>(q, u). \<not> is_duplicate lib db u) (found_urls [qr]))"
proof (cases qr)
  case (Pair q r)
  assume run: "main_step lib db qr st = Inr st'"
  show ?thesis
  proof (cases r)
    case (Inl e)
    with Pair run show ?thesis by (simp add: main_step_def)
  next
    case (Inr res)
    show ?thesis
    proof (cases res)
      case None
      with Pair Inr run show ?thesis by (auto simp: main_step_def)
    next
      case (Some u)
      with Pair Inr run show ?thesis
        by (auto simp: main_step_def is_duplicate_def split: if_splits sum.splits option.splits)
    qed
  qed
qed

lemma main_step_checked:
  "main_step lib db (q, Inr (Some u)) st = Inr st' \<Longrightarrow> u \<noteq> [] \<Longrightarrow>
   \<exists>r. check_duplicate lib u db = Inr r"
  by (auto simp: main_step_def split: sum.splits)

lemma found_urls_Cons: "found_urls (qr # rest) = found_urls [qr] @ found_urls rest"
  by (induction "qr # rest" rule: found_urls.induct) auto

lemma main_loop_new_entries:
  "main_loop lib db qs st = Inr st' \<Longrightarrow>
   new_entries st' =
     new_entries st @
       map (\<lambda>(q, u). result_obj q u) (filter (\<lambda>(q, u). \<not> is_duplicate lib db u) (found_urls qs))"
proof (induction qs arbitrary: st)
  case Nil
  then show ?case by simp
next
  case (Cons qr rest)
  from Cons.prems obtain st1 where
    s1: "main_step lib db qr st = Inr st1" and s2: "main_loop lib db rest st1 = Inr st'"
    by (auto split: sum.splits)
  from Cons.IH[OF s2] main_step_new_entries[OF s1]
  show ?case by (subst found_urls_Cons) simp
qed

lemma check_loop_append_None:
  "check_loop lib vid db = Inr None \<Longrightarrow> check_loop lib vid (db @ xs) = check_loop lib vid xs"
  by (induction db) (auto split: option.splits sum.splits if_splits)

lemma check_loop_append_Some:
  "check_loop lib vid db = Inr (Some e) \<Longrightarrow> check_loop lib vid (db @ xs) = Inr (Some e)"
  by (induction db) (auto split: option.splits sum.splits if_splits)

lemma check_duplicate_append:
  "check_duplicate lib u db = Inr r \<Longrightarrow>
   check_duplicate lib u (db @ xs) =
     (case r of Some e \<Rightarrow> Inr (Some e) | None \<Rightarrow> check_duplicate lib u xs)"
  by (cases r)
     (auto simp: check_duplicate_def check_loop_append_None check_loop_append_Some
       split: sum.splits if_splits)

text \<open>
  Once \<open>check_duplicate\<close> has returned on the records loaded, checking against the store as
  it grows gives another answer only for a duplicate of a record added in the same batch.
\<close>

lemma is_duplicate_append:
  "check_duplicate lib u db = Inr r \<Longrightarrow> \<not> is_duplicate lib added u \<Longrightarrow>
   is_duplicate lib (db @ added) u = is_duplicate lib db u"
  by (cases r) (auto simp: is_duplicate_def check_duplicate_append)

lemma main_loop_non_duplicates:
  "main_loop lib db qs st = Inr st' \<Longrightarrow>
   no_batch_duplicate lib db (new_entries st) (found_urls qs) \<Longrightarrow>
   new_entries st' = new_entries st @ non_duplicates lib (db @ new_entries st) (found_urls qs)"
proof (induction qs arbitrary: st)
  case Nil
  then show ?case by simp
next
  case (Cons qr rest)
  from Cons.prems(1) obtain st1 where
    s1: "main_step lib db qr st = Inr st1" and s2: "main_loop lib db rest st1 = Inr st'"
    by (auto split: sum.splits)
  obtain q res where qr: "qr = (q, res)" by (cases qr)
  have "(\<exists>u. res = Inr (Some u) \<and> u \<noteq> []) \<or> found_urls (qr # rest) = found_urls rest"
  proof (cases res)
    case (Inl e)
    with qr show ?thesis by simp
  next
    case (Inr found)
    with qr show ?thesis by (cases found) auto
  qed
  then consider (url) u where "res = Inr (Some u)" "u \<noteq> []"
    | (none) "found_urls (qr # rest) = found_urls rest"
    by blast
  then show ?case
  proof cases
    case none
    then have "found_urls [qr] = []" using found_urls_Cons[of qr rest] by simp
    with main_step_new_entries[OF s1] have "new_entries st1 = new_entries st" by simp
    with Cons.IH[OF s2] Cons.prems(2) none show ?thesis by simp
  next
    case url
    have fu: "found_urls (qr # rest) = (q, u) # found_urls rest"
      using qr url by simp
    from main_step_checked s1 qr url obtain r where
      r: "check_duplicate lib u db = Inr r" by blast
    from Cons.prems(2) fu have
      nb: "\<not> is_duplicate lib (new_entries st) u" and
      nb': "no_batch_duplicate lib db
              (if is_duplicate lib db u then new_entries st
               else new_entries st @ [result_obj q u]) (found_urls rest)"
      by simp_all
    have same: "is_duplicate lib (db @ new_entries st) u = is_duplicate lib db u"
      by (rule is_duplicate_append[OF r nb])
    have st1: "new_entries st1 =
        (if is_duplicate lib db u then new_entries st else new_entries st @ [result_obj q u])"
      using main_step_new_entries[OF s1] qr url by simp
    from Cons.IH[OF s2] nb' st1 have
      "new_entries st' = new_entries st1 @ non_duplicates lib (db @ new_entries st1) (found_urls rest)"
      by simp
    with st1 same fu show ?thesis by simp
  qed
qed

lemma result_obj_fields:
  "map_of (result_obj q u) ''title'' = Some (JStr q) \<and>
   map_of (result_obj q u) ''url'' = Some (JStr u) \<and>
   map_of (result_obj q u) ''done'' = Some (JBool False) \<and>
   map_of (result_obj q u) ''download_path'' = Some (JStr '''') \<and>
   map_of (result_obj q u) ''project'' = Some (JStr '''')"
  by (simp add: result_obj_def)

lemma non_duplicates_from_queries:
  "e \<in> set (non_duplicates lib store qus) \<Longrightarrow> \<exists>q u. (q, u) \<in> set qus \<and> e = result_obj q u"
  by (induction lib store qus rule: non_duplicates.induct) (auto split: if_splits)

text \<open>
  C7 as stated fails: a run in which no query gives a new record completes without a
  write, and a store file that did not exist still does not exist after it.
\<close>

theorem no_new_entry_counterexample:
  "main example_lib [(''Song A'', Inr None)] Missing =
     Inr (Missing, \<lparr>new_entries = [], duplicates_found = [], queries_processed = 1\<rparr>, [])"
  by (simp add: main_def main_step_def load_database_def save_database_def)

text \<open>
  C7, as the code has it, for a run that completes on a batch in which no result URL is a
  duplicate of a record added for an earlier query of the same batch. The store read back
  is the records loaded, unchanged and in their order, followed by one \<open>result_obj\<close> for
  each non-duplicate query that got a URL, in query order; each new record has the text of
  its query as \<open>title\<close>, the URL returned for it as \<open>url\<close>, \<open>done = False\<close> and empty
  \<open>download_path\<close> and \<open>project\<close>. When there is a new record the file is written once, after
  the loop, with that store; otherwise nothing is written and the file is as it was.
\<close>

theorem discovery_batch_append:
  assumes "main lib queries d = Inr (d', r, w)"
    and "no_batch_duplicate lib (load_database d) [] (found_urls queries)"
  shows "load_database d' = load_database d @ new_entries r \<and>
    new_entries r = non_duplicates lib (load_database d) (found_urls queries) \<and>
    (\<forall>e \<in> set (new_entries r).
       \<exists>q u. (q, u) \<in> set (found_urls queries) \<and>
         map_of e ''title'' = Some (JStr q) \<and>
         map_of e ''url'' = Some (JStr u) \<and>
         map_of e ''done'' = Some (JBool False) \<and>
         map_of e ''download_path'' = Some (JStr '''') \<and>
         map_of e ''project'' = Some (JStr '''')) \<and>
    w = (if new_entries r = [] then []
         else [save_database (load_database d @ new_entries r) d]) \<and>
    d' = (if w = [] then d else last w)"
proof -
  let ?st0 = "\<lparr>new_entries = [], duplicates_found = [], queries_processed = 0\<rparr>"
  from assms(1) have loop: "main_loop lib (load_database d) queries ?st0 = Inr r"
    and w: "w = (if new_entries r = [] then []
                 else [save_database (load_database d @ new_entries r) d])"
    and d': "d' = (if new_entries r = [] then d
                   else save_database (load_database d @ new_entries r) d)"
    by (auto simp: main_def Let_def split: if_splits sum.splits)
  have new: "new_entries r = non_duplicates lib (load_database d) (found_urls queries)"
    using main_loop_non_duplicates[OF loop] assms(2) by simp
  have fields: "\<forall>e \<in> set (new_entries r).
       \<exists>q u. (q, u) \<in> set (found_urls queries) \<and>
         map_of e ''title'' = Some (JStr q) \<and>
         map_of e ''url'' = Some (JStr u) \<and>
         map_of e ''done'' = Some (JBool False) \<and>
         map_of e ''download_path'' = Some (JStr '''') \<and>
         map_of e ''project'' = Some (JStr '''')"
  proof
    fix e assume "e \<in> set (new_entries r)"
    with new obtain q u where "(q, u) \<in> set (found_urls queries)" "e = result_obj q u"
      using non_duplicates_from_queries by metis
    with result_obj_fields[of q u] show "\<exists>q u. (q, u) \<in> set (found_urls queries) \<and>
         map_of e ''title'' = Some (JStr q) \<and>
         map_of e ''url'' = Some (JStr u) \<and>
         map_of e ''done'' = Some (JBool False) \<and>
         map_of e ''download_path'' = Some (JStr '''') \<and>
         map_of e ''project'' = Some (JStr '''')"
      by blast
  qed
  have read: "load_database d' = load_database d @ new_entries r"
    using d' by (simp add: save_database_def load_database_def)
  have last: "d' = (if w = [] then d else last w)"
    using d' w by simp
  from read new fields w last show ?thesis by blast
qed

theorem discovery_batch_append_witness:
  "main example_lib
     [(''Song A'', Inr (Some url_abc_t)), (''Song B'', Inr None), (''Song X'', Inr (Some url_xyz))]
     (Holds [done_record ''Song A'' url_abc ''/music'']) =
     Inr (Holds [done_record ''Song A'' url_abc ''/music'', result_obj ''Song X'' url_xyz],
          \<lparr>new_entries = [result_obj ''Song X'' url_xyz],
           duplicates_found = [(''Song A'', done_record ''Song A'' url_abc ''/music'')],
           queries_processed = 3\<rparr>,
          [Holds [done_record ''Song A'' url_abc ''/music'', result_obj ''Song X'' url_xyz]]) \<and>
   no_batch_duplicate example_lib (load_database (Holds [done_record ''Song A'' url_abc ''/music'']))
     []
     (found_urls [(''Song A'', Inr (Some url_abc_t)), (''Song B'', Inr None),
                  (''Song X'', Inr (Some url_xyz))]) \<and>
   [result_obj ''Song X'' url_xyz] =
     non_duplicates example_lib (load_database (Holds [done_record ''Song A'' url_abc ''/music'']))
       (found_urls [(''Song A'', Inr (Some url_abc_t)), (''Song B'', Inr None),
                    (''Song X'', Inr (Some url_xyz))])"
proof -
  let ?qs = "[(''Song A'', Inr (Some url_abc_t)), (''Song B'', Inr None),
              (''Song X'', Inr (Some url_xyz))]"
  let ?d = "Holds [done_record ''Song A'' url_abc ''/music'']"
  have run: "main example_lib ?qs ?d =
     Inr (Holds [done_record ''Song A'' url_abc ''/music'', result_obj ''Song X'' url_xyz],
          \<lparr>new_entries = [result_obj ''Song X'' url_xyz],
           duplicates_found = [(''Song A'', done_record ''Song A'' url_abc ''/music'')],
           queries_processed = 3\<rparr>,
          [Holds [done_record ''Song A'' url_abc ''/music'', result_obj ''Song X'' url_xyz]])"
    by (simp add: main_def Let_def main_step_def check_duplicate_def example_extract_abc
        example_extract_abc_t example_extract_xyz example_urls_nonempty load_database_def
        save_database_def done_record_def)
  have fu: "found_urls ?qs = [(''Song A'', url_abc_t), (''Song X'', url_xyz)]"
    by (simp add: example_urls_nonempty)
  have nb: "no_batch_duplicate example_lib (load_database ?d) [] (found_urls ?qs)"
    unfolding fu
    by (simp add: is_duplicate_def check_duplicate_def example_extract_abc
        example_extract_abc_t example_extract_xyz load_database_def done_record_def)
  have "[result_obj ''Song X'' url_xyz] =
      non_duplicates example_lib (load_database ?d) (found_urls ?qs)"
    using discovery_batch_append[OF run nb, THEN conjunct2, THEN conjunct1]
    by (simp only: discovery.select_convs)
  with run nb show ?thesis by (intro conjI)
qed

end
